theory Spec2Isabelle
  imports Main "HOL-Library.Multiset"
begin

section \<open>JavaScript values\<close>

text \<open>
  The registry handles three kinds of JavaScript data: the value attached to a class by
  \<^verbatim>\<open>Discover(v)\<close> (\<^verbatim>\<open>v: unknown\<close>), property keys of the index object, and
  class references. Tag values are modelled as the primitives \<^verbatim>\<open>undefined\<close>,
  \<^verbatim>\<open>null\<close>, booleans, strings and symbols (a symbol is its identity together with its
  description); numbers, bigints and objects as tag values are outside the model.
  The only exception the modelled code can raise is a \<^verbatim>\<open>TypeError\<close>.
\<close>

datatype exn = TypeError

datatype jsval = JUndefined | JNull | JBool bool | JStr string | JSym nat string

text \<open>ToBoolean: what \<^verbatim>\<open>&&\<close>, \<^verbatim>\<open>||\<close> and \<^verbatim>\<open>?:\<close> test.\<close>

fun truthy :: "jsval \<Rightarrow> bool" where
  "truthy JUndefined = False"
| "truthy JNull = False"
| "truthy (JBool b) = b"
| "truthy (JStr s) = (s \<noteq> [])"
| "truthy (JSym n d) = True"

datatype propkey = KStr string | KSym nat string

text \<open>ToPropertyKey: what a computed member access \<^verbatim>\<open>o[v]\<close> does to \<^verbatim>\<open>v\<close>.\<close>

fun ToPropertyKey :: "jsval \<Rightarrow> propkey" where
  "ToPropertyKey JUndefined = KStr ''undefined''"
| "ToPropertyKey JNull = KStr ''null''"
| "ToPropertyKey (JBool b) = KStr (if b then ''true'' else ''false'')"
| "ToPropertyKey (JStr s) = KStr s"
| "ToPropertyKey (JSym n d) = KSym n d"

text \<open>The method call \<^verbatim>\<open>v.toString()\<close>; it throws on \<^verbatim>\<open>undefined\<close> and \<^verbatim>\<open>null\<close>.\<close>

fun toString :: "jsval \<Rightarrow> exn + string" where
  "toString JUndefined = Inl TypeError"
| "toString JNull = Inl TypeError"
| "toString (JBool b) = Inr (if b then ''true'' else ''false'')"
| "toString (JStr s) = Inr s"
| "toString (JSym n d) = Inr (''Symbol('' @ d @ '')'')"

section \<open>Classes and reflection metadata\<close>

text \<open>
  A class is its identity and, for a subclass, the class it extends.
  \<^verbatim>\<open>Reflect.defineMetadata\<close> records a value on the class itself;
  \<^verbatim>\<open>Reflect.getMetadata\<close> reads the class's own record and otherwise walks up the
  chain of superclasses. Both throw a \<^verbatim>\<open>TypeError\<close> when the target is not an object. A
  target is \<open>Some c\<close> for a class and \<open>None\<close> for \<^verbatim>\<open>null\<close>/\<^verbatim>\<open>undefined\<close>.
\<close>

datatype cls = BaseClass nat | SubClass nat cls

fun class_id :: "cls \<Rightarrow> nat" where
  "class_id (BaseClass n) = n"
| "class_id (SubClass n p) = n"

type_synonym metadata = "jsval \<times> nat \<rightharpoonup> jsval"

fun OrdinaryGetMetadata :: "metadata \<Rightarrow> jsval \<Rightarrow> cls \<Rightarrow> jsval" where
  "OrdinaryGetMetadata md k (BaseClass n) =
     (case md (k, n) of Some v \<Rightarrow> v | None \<Rightarrow> JUndefined)"
| "OrdinaryGetMetadata md k (SubClass n p) =
     (case md (k, n) of Some v \<Rightarrow> v | None \<Rightarrow> OrdinaryGetMetadata md k p)"

definition Reflect_defineMetadata ::
  "jsval \<Rightarrow> jsval \<Rightarrow> cls option \<Rightarrow> metadata \<Rightarrow> exn + metadata" where
  "Reflect_defineMetadata k v target md =
     (case target of
        None \<Rightarrow> Inl TypeError
      | Some c \<Rightarrow> Inr (md((k, class_id c) \<mapsto> v)))"

definition Reflect_getMetadata :: "jsval \<Rightarrow> cls option \<Rightarrow> metadata \<Rightarrow> exn + jsval" where
  "Reflect_getMetadata k target md =
     (case target of
        None \<Rightarrow> Inl TypeError
      | Some c \<Rightarrow> Inr (OrdinaryGetMetadata md k c))"

section \<open>Decorators\<close>

text \<open>
  A \<^verbatim>\<open>ClassDecorator\<close> is a function \<^verbatim>\<open>(target) => TFunction | void\<close>: it may change the
  world (here a state \<open>'s\<close>), may throw, and returns a class or nothing (\<open>None\<close>).
\<close>

type_synonym 's decorator = "cls option \<Rightarrow> 's \<Rightarrow> exn + (cls option \<times> 's)"

text \<open>
  \<^verbatim>\<open>SetMetadata(key, value)\<close> of the framework, called with one argument as a class
  decorator is: it defines the metadata on the target and returns the target.
\<close>

definition SetMetadata :: "jsval \<Rightarrow> jsval \<Rightarrow> metadata decorator" where
  "SetMetadata metadataKey metadataValue target md =
     (case Reflect_defineMetadata metadataKey metadataValue target md of
        Inl e \<Rightarrow> Inl e
      | Inr md' \<Rightarrow> Inr (target, md'))"

text \<open>
  \<^verbatim>\<open>Injectable()\<close> of the framework marks the class and returns nothing.
\<close>

definition Injectable :: "metadata decorator" where
  "Injectable target md =
     (case Reflect_defineMetadata (JStr ''__injectable__'') (JBool True) target md of
        Inl e \<Rightarrow> Inl e
      | Inr md1 \<Rightarrow>
          (case Reflect_defineMetadata (JStr ''scope:options'') JUndefined target md1 of
             Inl e \<Rightarrow> Inl e
           | Inr md2 \<Rightarrow> Inr (None, md2)))"

text \<open>\<^verbatim>\<open>export const REGISTRY_METADATA_KEY = Symbol('__my-app--registry__');\<close>\<close>

definition REGISTRY_METADATA_KEY :: jsval where
  "REGISTRY_METADATA_KEY = JSym 0 ''__my-app--registry__''"

text \<open>\<^verbatim>\<open>export const Discover = (v: unknown) => SetMetadata(REGISTRY_METADATA_KEY, v);\<close>\<close>

definition Discover :: "jsval \<Rightarrow> metadata decorator" where
  "Discover v = SetMetadata REGISTRY_METADATA_KEY v"

text \<open>
  \<^verbatim>\<open>composeDecorators\<close>: \<^verbatim>\<open>reduceRight\<close> starts from \<^verbatim>\<open>originalTarget\<close>, visits the
  decorators from the last to the first, and hands each one the value the previous one
  returned. A decorator that throws ends the reduction.
\<close>

definition composeDecorators :: "'s decorator list \<Rightarrow> 's decorator" where
  "composeDecorators decorators originalTarget =
     foldr (\<lambda>decorator acc s.
              case acc s of
                Inl e \<Rightarrow> Inl e
              | Inr (target, s') \<Rightarrow> decorator target s')
           decorators (\<lambda>s. Inr (originalTarget, s))"

text \<open>
  \<^verbatim>\<open>REPOSITORY_PROVIDER\<close> and
  \<^verbatim>\<open>DiscoverableRepository = composeDecorators(Injectable(), Discover(REPOSITORY_PROVIDER))\<close>.
\<close>

definition REPOSITORY_PROVIDER :: string where
  "REPOSITORY_PROVIDER = ''repository''"

definition DiscoverableRepository :: "metadata decorator" where
  "DiscoverableRepository = composeDecorators [Injectable, Discover (JStr REPOSITORY_PROVIDER)]"

section \<open>Objects used as dictionaries\<close>

text \<open>
  The index is an ordinary object \<^verbatim>\<open>Record<string | symbol, unknown[]>\<close> created by an
  object literal, so its prototype is \<^verbatim>\<open>Object.prototype\<close>. It is modelled by its own
  properties in creation order; every own property holds an array.

  Reading a property gives the own property if there is one, otherwise what
  \<^verbatim>\<open>Object.prototype\<close> has under that name (a built-in function or object, never an
  array), otherwise \<^verbatim>\<open>undefined\<close>.
\<close>

type_synonym 'a jsobject = "(propkey \<times> 'a list) list"

datatype 'a jsvalue = Undefined | Array "'a list" | Builtin string

definition Object_prototype_names :: "string list" where
  "Object_prototype_names =
     [''constructor'', ''__defineGetter__'', ''__defineSetter__'', ''hasOwnProperty'',
      ''__lookupGetter__'', ''__lookupSetter__'', ''isPrototypeOf'',
      ''propertyIsEnumerable'', ''toString'', ''valueOf'', ''__proto__'',
      ''toLocaleString'']"

definition get_property :: "'a jsobject \<Rightarrow> propkey \<Rightarrow> 'a jsvalue" where
  "get_property obj k =
     (case map_of obj k of
        Some xs \<Rightarrow> Array xs
      | None \<Rightarrow>
          (case k of
             KStr s \<Rightarrow> if s \<in> set Object_prototype_names then Builtin s else Undefined
           | KSym n d \<Rightarrow> Undefined))"

text \<open>
  The order of own property keys (OrdinaryOwnPropertyKeys): array indices (canonical
  decimal strings below \<open>2\<^sup>3\<^sup>2 - 1\<close>) in ascending numeric order, then the other strings in
  creation order, then the symbols in creation order.
\<close>

definition is_digit :: "char \<Rightarrow> bool" where
  "is_digit c = (48 \<le> (of_char c :: nat) \<and> (of_char c :: nat) \<le> 57)"

definition decimal :: "string \<Rightarrow> nat" where
  "decimal s = foldl (\<lambda>n c. 10 * n + (of_char c - 48)) 0 s"

definition array_index :: "string \<Rightarrow> nat option" where
  "array_index s =
     (if s \<noteq> [] \<and> list_all is_digit s \<and> (s = ''0'' \<or> hd s \<noteq> CHR ''0'')
         \<and> decimal s < 2 ^ 32 - 1
      then Some (decimal s) else None)"

fun is_index_key :: "propkey \<Rightarrow> bool" where
  "is_index_key (KStr s) = (array_index s \<noteq> None)"
| "is_index_key (KSym n d) = False"

fun is_name_key :: "propkey \<Rightarrow> bool" where
  "is_name_key (KStr s) = (array_index s = None)"
| "is_name_key (KSym n d) = False"

fun is_symbol_key :: "propkey \<Rightarrow> bool" where
  "is_symbol_key (KStr s) = False"
| "is_symbol_key (KSym n d) = True"

fun key_index :: "propkey \<Rightarrow> nat" where
  "key_index (KStr s) = (case array_index s of Some i \<Rightarrow> i | None \<Rightarrow> 0)"
| "key_index (KSym n d) = 0"

definition own_properties :: "(propkey \<times> 'v) list \<Rightarrow> (propkey \<times> 'v) list" where
  "own_properties obj =
     sort_key (\<lambda>p. key_index (fst p)) (filter (\<lambda>p. is_index_key (fst p)) obj)
     @ filter (\<lambda>p. is_name_key (fst p)) obj
     @ filter (\<lambda>p. is_symbol_key (fst p)) obj"

text \<open>Defining a property replaces the value of an existing key and appends a new key.\<close>

fun define_property :: "propkey \<Rightarrow> 'v \<Rightarrow> (propkey \<times> 'v) list \<Rightarrow> (propkey \<times> 'v) list" where
  "define_property k v [] = [(k, v)]"
| "define_property k v ((k', v') # obj) =
     (if k' = k then (k, v) # obj else (k', v') # define_property k v obj)"

text \<open>
  The literal \<^verbatim>\<open>{ ...acc, [k]: v }\<close>: a fresh object receives the own properties of
  \<^verbatim>\<open>acc\<close> in key order and then the property \<^verbatim>\<open>k\<close>.
\<close>

definition spread_with :: "(propkey \<times> 'v) list \<Rightarrow> propkey \<Rightarrow> 'v \<Rightarrow> (propkey \<times> 'v) list" where
  "spread_with acc k v = define_property k v (own_properties acc)"

text \<open>\<^verbatim>\<open>Object.values\<close>: the values of the string-keyed own properties, in key order.\<close>

definition Object_values :: "(propkey \<times> 'v) list \<Rightarrow> 'v list" where
  "Object_values obj = map snd (filter (\<lambda>p. \<not> is_symbol_key (fst p)) (own_properties obj))"

section \<open>The registry\<close>

text \<open>
  An instance is declared \<^verbatim>\<open>unknown\<close>: it is a plain object of some type \<open>'a\<close>, or an
  array (more generally a value that \<^verbatim>\<open>Array.prototype.concat\<close> spreads) with its elements.
  \<^verbatim>\<open>arr.concat(v)\<close> appends the elements of \<^verbatim>\<open>v\<close> when \<^verbatim>\<open>v\<close> is such an array, and
  \<^verbatim>\<open>v\<close> itself otherwise.
\<close>

datatype 'a unknown = Object 'a | ArrayOf "'a unknown list"

fun is_array :: "'a unknown \<Rightarrow> bool" where
  "is_array (Object x) = False"
| "is_array (ArrayOf vs) = True"

fun concat_items :: "'a unknown \<Rightarrow> 'a unknown list" where
  "concat_items (Object x) = [Object x]"
| "concat_items (ArrayOf vs) = vs"

definition Array_concat :: "'a unknown list \<Rightarrow> 'a unknown \<Rightarrow> 'a unknown list" where
  "Array_concat arr v = arr @ concat_items v"

text \<open>
  An entry handed over by the discovery service:
  \<^verbatim>\<open>{ metatype: unknown | null; instance: unknown; name: string }\<close>. The metatype is a class
  or \<^verbatim>\<open>null\<close>/\<^verbatim>\<open>undefined\<close> (\<open>None\<close>).
\<close>

record 'a wrapper =
  metatype :: "cls option"
  inst :: "'a unknown"
  name :: string

text \<open>The logged object \<^verbatim>\<open>{ event, type, name }\<close>, fields in this order.\<close>

datatype discovery_event = DiscoveryEvent string string string

record 'a Registry =
  providers :: "'a jsobject"

text \<open>\<^verbatim>\<open>Registry.getMetadata(metatype)\<close>.\<close>

definition getMetadata :: "metadata \<Rightarrow> cls option \<Rightarrow> exn + jsval" where
  "getMetadata md target = Reflect_getMetadata REGISTRY_METADATA_KEY target md"

text \<open>\<^verbatim>\<open>Registry.emitDiscoveredEvent\<close>; the logger is the list of events logged so far.\<close>

definition emitDiscoveredEvent ::
  "jsval \<Rightarrow> string \<Rightarrow> discovery_event list \<Rightarrow> exn + discovery_event list" where
  "emitDiscoveredEvent type nm logger =
     (case toString type of
        Inl e \<Rightarrow> Inl e
      | Inr s \<Rightarrow> Inr (logger @ [DiscoveryEvent ''DISCOVERED'' s nm]))"

text \<open>The filter's test \<^verbatim>\<open>metatype && this.getMetadata(metatype)\<close>.\<close>

definition filter_callback :: "metadata \<Rightarrow> 'a wrapper \<Rightarrow> exn + bool" where
  "filter_callback md w =
     (case metatype w of
        None \<Rightarrow> Inr False
      | Some c \<Rightarrow>
          (case getMetadata md (Some c) of
             Inl e \<Rightarrow> Inl e
           | Inr v \<Rightarrow> Inr (truthy v)))"

text \<open>
  The reducer: read the tag, log the event, then build
  \<^verbatim>\<open>{ ...acc, [type]: (acc[type] || []).concat(instance) }\<close>. When \<^verbatim>\<open>acc[type]\<close> is a
  built-in inherited from \<^verbatim>\<open>Object.prototype\<close> it is truthy and has no \<^verbatim>\<open>concat\<close>, so the
  call throws.
\<close>

definition reduce_callback ::
  "metadata \<Rightarrow> discovery_event list \<Rightarrow> 'a unknown jsobject \<Rightarrow> 'a wrapper
     \<Rightarrow> discovery_event list \<times> (exn + 'a unknown jsobject)" where
  "reduce_callback md logger acc w =
     (case getMetadata md (metatype w) of
        Inl e \<Rightarrow> (logger, Inl e)
      | Inr type \<Rightarrow>
          (case emitDiscoveredEvent type (name w) logger of
             Inl e \<Rightarrow> (logger, Inl e)
           | Inr logger' \<Rightarrow>
               (case get_property acc (ToPropertyKey type) of
                  Undefined \<Rightarrow>
                    (logger', Inr (spread_with acc (ToPropertyKey type) (Array_concat [] (inst w))))
                | Array xs \<Rightarrow>
                    (logger', Inr (spread_with acc (ToPropertyKey type) (Array_concat xs (inst w))))
                | Builtin b \<Rightarrow> (logger', Inl TypeError))))"

text \<open>
  \<^verbatim>\<open>iterate(wrappers).filter(...).reduce(..., {})\<close> pulls one entry at a time through the
  filter and the reducer.
\<close>

fun scan_loop ::
  "metadata \<Rightarrow> 'a wrapper list \<Rightarrow> discovery_event list \<Rightarrow> 'a unknown jsobject
     \<Rightarrow> discovery_event list \<times> (exn + 'a unknown jsobject)" where
  "scan_loop md [] logger acc = (logger, Inr acc)"
| "scan_loop md (w # ws) logger acc =
     (case filter_callback md w of
        Inl e \<Rightarrow> (logger, Inl e)
      | Inr False \<Rightarrow> scan_loop md ws logger acc
      | Inr True \<Rightarrow>
          (case reduce_callback md logger acc w of
             (logger', Inl e) \<Rightarrow> (logger', Inl e)
           | (logger', Inr acc') \<Rightarrow> scan_loop md ws logger' acc'))"

definition scanDiscoverableInstanceWrappers ::
  "metadata \<Rightarrow> 'a wrapper list \<Rightarrow> discovery_event list \<times> (exn + 'a unknown jsobject)" where
  "scanDiscoverableInstanceWrappers md wrappers = scan_loop md wrappers [] []"

text \<open>A new registry: \<^verbatim>\<open>providers = {}\<close>.\<close>

definition Registry_new :: "'a Registry" where
  "Registry_new = \<lparr> providers = [] \<rparr>"

text \<open>
  \<^verbatim>\<open>Registry.onModuleInit\<close> (the spec's \<^verbatim>\<open>populate\<close>); \<open>wrappers\<close> is what
  \<^verbatim>\<open>discoveryService.getProviders()\<close> returned. The field is assigned only when the scan
  returns.
\<close>

definition onModuleInit ::
  "metadata \<Rightarrow> 'a wrapper list \<Rightarrow> 'a unknown Registry
     \<Rightarrow> discovery_event list \<times> (exn + 'a unknown Registry)" where
  "onModuleInit md wrappers registry =
     (case scanDiscoverableInstanceWrappers md wrappers of
        (logger, Inl e) \<Rightarrow> (logger, Inl e)
      | (logger, Inr index) \<Rightarrow> (logger, Inr (registry\<lparr> providers := index \<rparr>)))"

text \<open>
  \<^verbatim>\<open>Registry.getProviders(key?: string | symbol)\<close> (the spec's \<^verbatim>\<open>getByTag\<close>). A key is
  truthy unless it is omitted or the empty string. No step of it can throw.
\<close>

fun key_truthy :: "propkey \<Rightarrow> bool" where
  "key_truthy (KStr s) = (s \<noteq> [])"
| "key_truthy (KSym n d) = True"

definition getProviders :: "'a Registry \<Rightarrow> propkey option \<Rightarrow> 'a jsvalue" where
  "getProviders registry key =
     (let flat = Array (concat (Object_values (providers registry)));
          found = (case key of
                     None \<Rightarrow> flat
                   | Some k \<Rightarrow> if key_truthy k then get_property (providers registry) k else flat)
      in case found of Undefined \<Rightarrow> Array [] | Array xs \<Rightarrow> Array xs | Builtin b \<Rightarrow> Builtin b)"

section \<open>The monitoring service\<close>

text \<open>
  \<^verbatim>\<open>repositories\<close> holds whatever \<^verbatim>\<open>getProviders\<close> returned. \<^verbatim>\<open>check\<close> maps the
  method call \<^verbatim>\<open>repository.check()\<close> over it in order; \<open>call_check\<close> is that method
  call on one instance. A value that is not an array has no \<^verbatim>\<open>map\<close>.
\<close>

record 'a MonitoringService =
  repositories :: "'a jsvalue"

definition MonitoringService_new :: "'a MonitoringService" where
  "MonitoringService_new = \<lparr> repositories = Array [] \<rparr>"

definition MonitoringService_onModuleInit ::
  "'a Registry \<Rightarrow> 'a MonitoringService \<Rightarrow> 'a MonitoringService" where
  "MonitoringService_onModuleInit registry ms =
     ms\<lparr> repositories := getProviders registry (Some (KStr REPOSITORY_PROVIDER)) \<rparr>"

fun array_map :: "('a \<Rightarrow> exn + 'b) \<Rightarrow> 'a list \<Rightarrow> exn + 'b list" where
  "array_map f [] = Inr []"
| "array_map f (x # xs) =
     (case f x of
        Inl e \<Rightarrow> Inl e
      | Inr y \<Rightarrow> (case array_map f xs of Inl e \<Rightarrow> Inl e | Inr ys \<Rightarrow> Inr (y # ys)))"

definition check :: "('a \<Rightarrow> exn + string) \<Rightarrow> 'a MonitoringService \<Rightarrow> exn + string list" where
  "check call_check ms =
     (case repositories ms of
        Array rs \<Rightarrow> array_map call_check rs
      | Undefined \<Rightarrow> Inl TypeError
      | Builtin b \<Rightarrow> Inl TypeError)"

section \<open>The example application\<close>

text \<open>
  The two repository classes, both decorated with \<^verbatim>\<open>@DiscoverableRepository\<close>, whose
  \<^verbatim>\<open>check()\<close> returns the class's own name. An instance is \<open>New c\<close> for its class \<open>c\<close>;
  instances of other classes, and arrays, have no \<^verbatim>\<open>check\<close> method.
\<close>

definition FooRepository :: cls where
  "FooRepository = BaseClass 1"

definition BarRepository :: cls where
  "BarRepository = BaseClass 2"

datatype component = New cls

fun repository_check :: "component unknown \<Rightarrow> exn + string" where
  "repository_check (Object (New c)) =
     (if c = FooRepository then Inr ''FooRepository''
      else if c = BarRepository then Inr ''BarRepository''
      else Inl TypeError)"
| "repository_check (ArrayOf vs) = Inl TypeError"

section \<open>Vocabulary of the properties\<close>

text \<open>
  \<open>readTag\<close> is the tag of an entry's type (\<^verbatim>\<open>undefined\<close> when there is no type or no tag).
  An entry \<open>carries_tag\<close> when its type has a tag attached, whatever the value;
  it is \<open>discoverable\<close> when the type reference and the tag are both truthy, which is what
  the scan tests. \<open>tag_key\<close> is the property key under which the scan files the entry.
\<close>

definition readTag :: "metadata \<Rightarrow> 'a wrapper \<Rightarrow> jsval" where
  "readTag md w =
     (case metatype w of
        None \<Rightarrow> JUndefined
      | Some c \<Rightarrow> OrdinaryGetMetadata md REGISTRY_METADATA_KEY c)"

definition carries_tag :: "metadata \<Rightarrow> 'a wrapper \<Rightarrow> bool" where
  "carries_tag md w = (readTag md w \<noteq> JUndefined)"

definition discoverable :: "metadata \<Rightarrow> 'a wrapper \<Rightarrow> bool" where
  "discoverable md w = (metatype w \<noteq> None \<and> truthy (readTag md w))"

definition tag_key :: "metadata \<Rightarrow> 'a wrapper \<Rightarrow> propkey" where
  "tag_key md w = ToPropertyKey (readTag md w)"

definition inherited :: "propkey \<Rightarrow> bool" where
  "inherited k = (case k of KStr s \<Rightarrow> s \<in> set Object_prototype_names | KSym n d \<Rightarrow> False)"

definition event_of :: "metadata \<Rightarrow> 'a wrapper \<Rightarrow> discovery_event" where
  "event_of md w =
     DiscoveryEvent ''DISCOVERED''
       (case toString (readTag md w) of Inr s \<Rightarrow> s | Inl e \<Rightarrow> []) (name w)"

text \<open>
  \<open>instances_tagged md ws k\<close> are the instances of the discoverable entries filed under key
  \<open>k\<close>, in the order of \<open>ws\<close>; \<open>tagged md ws k\<close> is what \<^verbatim>\<open>concat\<close> appends for them, in
  the same order: the instance itself, or its elements when it is an array. The two agree
  when no instance is an array. \<open>has_entry\<close> says that some discoverable entry is filed
  under \<open>k\<close>. \<open>own_array\<close> reads an own property (empty when there is none); a key is
  \<open>shadowed\<close> in an object when reading it finds the inherited built-in.
\<close>

definition instances_tagged :: "metadata \<Rightarrow> 'a wrapper list \<Rightarrow> propkey \<Rightarrow> 'a unknown list" where
  "instances_tagged md ws k =
     map inst (filter (\<lambda>w. discoverable md w \<and> tag_key md w = k) ws)"

definition tagged :: "metadata \<Rightarrow> 'a wrapper list \<Rightarrow> propkey \<Rightarrow> 'a unknown list" where
  "tagged md ws k =
     concat (map (\<lambda>w. concat_items (inst w))
               (filter (\<lambda>w. discoverable md w \<and> tag_key md w = k) ws))"

definition has_entry :: "metadata \<Rightarrow> 'a wrapper list \<Rightarrow> propkey \<Rightarrow> bool" where
  "has_entry md ws k = (filter (\<lambda>w. discoverable md w \<and> tag_key md w = k) ws \<noteq> [])"

definition own_array :: "'a jsobject \<Rightarrow> propkey \<Rightarrow> 'a list" where
  "own_array obj k = (case map_of obj k of None \<Rightarrow> [] | Some xs \<Rightarrow> xs)"

definition shadowed :: "'a jsobject \<Rightarrow> propkey \<Rightarrow> bool" where
  "shadowed obj k = (inherited k \<and> map_of obj k = None)"

text \<open>
  A query on a registry that was created and then populated: the error of the population
  if it threw, otherwise what \<open>getProviders\<close> returns.
\<close>

definition getProviders_after_onModuleInit ::
  "metadata \<Rightarrow> 'a wrapper list \<Rightarrow> propkey option \<Rightarrow> exn + 'a unknown jsvalue" where
  "getProviders_after_onModuleInit md wrappers key =
     (case onModuleInit md wrappers Registry_new of
        (logger, Inl e) \<Rightarrow> Inl e
      | (logger, Inr registry) \<Rightarrow> Inr (getProviders registry key))"


text \<open>
  Concrete inputs: metadata in which class 1 is tagged \<^verbatim>\<open>'repository'\<close>, class 2
  \<^verbatim>\<open>'service'\<close>, class 3 the empty string and class 4 \<^verbatim>\<open>'constructor'\<close>; and entries
  whose type is a base class and whose instance is a plain object.
\<close>

definition sample_metadata :: metadata where
  "sample_metadata =
     [(REGISTRY_METADATA_KEY, 1) \<mapsto> JStr ''repository'',
      (REGISTRY_METADATA_KEY, 2) \<mapsto> JStr ''service'',
      (REGISTRY_METADATA_KEY, 3) \<mapsto> JStr [],
      (REGISTRY_METADATA_KEY, 4) \<mapsto> JStr ''constructor'']"

definition entry :: "nat \<Rightarrow> 'a \<Rightarrow> string \<Rightarrow> 'a wrapper" where
  "entry c i nm = \<lparr> metatype = Some (BaseClass c), inst = Object i, name = nm \<rparr>"

text \<open>
  The entries whose type has a tag attached, of any value, that is filed under key \<open>k\<close>: the
  reading of ``the instances whose type carries tag \<open>k\<close>'' that does not look at truthiness.
\<close>

definition instances_carrying :: "metadata \<Rightarrow> 'a wrapper list \<Rightarrow> propkey \<Rightarrow> 'a unknown list" where
  "instances_carrying md ws k = map inst (filter (\<lambda>w. carries_tag md w \<and> tag_key md w = k) ws)"

text \<open>
  Three entries in which the two tags alternate.
\<close>

definition sample_wrappers :: "nat wrapper list" where
  "sample_wrappers = [entry 1 10 ''A'', entry 2 20 ''B'', entry 1 30 ''C'']"

text \<open>
  The example application: the metadata left by decorating the two repository classes,
  starting from none, and the entries of its discovery service (the monitoring service,
  which is not tagged, and the two repositories in the order the module lists them).
\<close>

definition MonitoringService_class :: cls where
  "MonitoringService_class = BaseClass 3"

definition app_metadata :: metadata where
  "app_metadata =
     (case DiscoverableRepository (Some FooRepository) Map.empty of
        Inl e \<Rightarrow> Map.empty
      | Inr (r, md) \<Rightarrow>
          (case DiscoverableRepository (Some BarRepository) md of
             Inl e \<Rightarrow> Map.empty
           | Inr (r', md') \<Rightarrow> md'))"

definition app_wrappers :: "component wrapper list" where
  "app_wrappers =
     [\<lparr> metatype = Some MonitoringService_class, inst = Object (New MonitoringService_class),
        name = ''MonitoringService'' \<rparr>,
      \<lparr> metatype = Some FooRepository, inst = Object (New FooRepository),
        name = ''FooRepository'' \<rparr>,
      \<lparr> metatype = Some BarRepository, inst = Object (New BarRepository),
        name = ''BarRepository'' \<rparr>]"

section \<open>Auxiliary facts\<close>

lemma toString_truthy: "truthy v \<Longrightarrow> \<exists>s. toString v = Inr s"
  by (cases v) simp_all

lemma key_class_cases: "is_index_key k \<or> is_name_key k \<or> is_symbol_key k"
  by (cases k) auto

lemma key_classes_disjoint:
  "is_index_key k \<Longrightarrow> \<not> is_name_key k"
  "is_index_key k \<Longrightarrow> \<not> is_symbol_key k"
  "is_name_key k \<Longrightarrow> \<not> is_symbol_key k"
  by (cases k; simp)+

lemma set_own_properties: "set (own_properties obj) = set obj"
proof (rule set_eqI)
  fix p :: "propkey \<times> 'a"
  show "p \<in> set (own_properties obj) \<longleftrightarrow> p \<in> set obj"
    using key_class_cases [of "fst p"] by (simp add: own_properties_def) blast
qed

lemma distinct_keys_filter:
  "distinct (map fst obj) \<Longrightarrow> distinct (map fst (filter P obj))"
  by (simp add: distinct_map_filter)

lemma distinct_keys_sort:
  fixes f :: "propkey \<times> 'a \<Rightarrow> nat"
  assumes "distinct (map fst xs)"
  shows "distinct (map fst (sort_key f xs))"
proof -
  have "mset (map fst (sort_key f xs)) = mset (map fst xs)"
    by simp
  then show ?thesis
    using assms by (metis mset_eq_imp_distinct_iff)
qed

lemma distinct_own_properties:
  assumes "distinct (map fst obj)"
  shows "distinct (map fst (own_properties obj))"
proof -
  let ?I = "filter (\<lambda>p. is_index_key (fst p)) obj"
  let ?N = "filter (\<lambda>p. is_name_key (fst p)) obj"
  let ?S = "filter (\<lambda>p. is_symbol_key (fst p)) obj"
  have 1: "distinct (map fst (sort_key (\<lambda>p. key_index (fst p)) ?I))"
    by (rule distinct_keys_sort) (rule distinct_keys_filter [OF assms])
  have 2: "distinct (map fst ?N)" "distinct (map fst ?S)"
    by (rule distinct_keys_filter [OF assms])+
  have 3: "fst ` set ?I \<inter> fst ` set ?N = {}" "fst ` set ?I \<inter> fst ` set ?S = {}"
    "fst ` set ?N \<inter> fst ` set ?S = {}"
    using key_classes_disjoint by fastforce+
  show ?thesis
    unfolding own_properties_def using 1 2 3 by (simp add: Int_Un_distrib)
qed

lemma keys_define_property:
  "fst ` set (define_property k v obj) = insert k (fst ` set obj)"
proof (induction obj)
  case Nil
  show ?case by simp
next
  case (Cons p obj)
  obtain k' v' where p: "p = (k', v')" by (cases p)
  show ?case unfolding p using Cons by (cases "k' = k") (simp_all add: insert_commute)
qed

lemma distinct_define_property:
  "distinct (map fst obj) \<Longrightarrow> distinct (map fst (define_property k v obj))"
proof (induction obj)
  case Nil
  then show ?case by simp
next
  case (Cons p obj)
  obtain k' v' where p: "p = (k', v')" by (cases p)
  show ?case
    using Cons unfolding p by (cases "k' = k") (simp_all add: keys_define_property)
qed


lemma filter_callback_discoverable: "filter_callback md w = Inr (discoverable md w)"
  by (simp add: filter_callback_def discoverable_def readTag_def getMetadata_def
      Reflect_getMetadata_def split: option.splits)

lemma getMetadata_discoverable:
  "discoverable md w \<Longrightarrow> getMetadata md (metatype w) = Inr (readTag md w)"
  by (auto simp add: discoverable_def readTag_def getMetadata_def Reflect_getMetadata_def
      split: option.splits)

lemma emitDiscoveredEvent_discoverable:
  "discoverable md w \<Longrightarrow>
     emitDiscoveredEvent (readTag md w) (name w) logger = Inr (logger @ [event_of md w])"
  using toString_truthy [of "readTag md w"]
  by (auto simp add: discoverable_def emitDiscoveredEvent_def event_of_def)

lemma map_of_own_properties:
  "distinct (map fst obj) \<Longrightarrow> map_of (own_properties obj) = map_of obj"
  by (simp add: map_of_inject_set distinct_own_properties set_own_properties)

lemma map_of_define_property: "map_of (define_property k v obj) = (map_of obj)(k \<mapsto> v)"
  by (induction obj) (auto simp add: fun_eq_iff)

lemma map_of_spread_with:
  "distinct (map fst acc) \<Longrightarrow> map_of (spread_with acc k v) = (map_of acc)(k \<mapsto> v)"
  by (simp add: spread_with_def map_of_define_property map_of_own_properties)

lemma distinct_spread_with:
  "distinct (map fst acc) \<Longrightarrow> distinct (map fst (spread_with acc k v))"
  by (simp add: spread_with_def distinct_define_property distinct_own_properties)

lemma get_property_cases:
  "get_property obj k =
     (case map_of obj k of
        Some xs \<Rightarrow> Array xs
      | None \<Rightarrow> if inherited k then Builtin (case k of KStr s \<Rightarrow> s | KSym n d \<Rightarrow> d) else Undefined)"
  by (simp add: get_property_def inherited_def split: option.splits propkey.splits)

lemma reduce_callback_discoverable:
  assumes "discoverable md w"
  shows "reduce_callback md logger acc w =
     (logger @ [event_of md w],
      if shadowed acc (tag_key md w) then Inl TypeError
      else Inr (spread_with acc (tag_key md w)
                  (own_array acc (tag_key md w) @ concat_items (inst w))))"
  by (simp add: reduce_callback_def getMetadata_discoverable [OF assms]
      emitDiscoveredEvent_discoverable [OF assms] get_property_cases shadowed_def own_array_def
      tag_key_def Array_concat_def split: option.splits)

lemma tagged_Cons:
  "tagged md (w # ws) k =
     (if discoverable md w \<and> tag_key md w = k then concat_items (inst w) @ tagged md ws k
      else tagged md ws k)"
  by (simp add: tagged_def)

lemma has_entry_Cons:
  "has_entry md (w # ws) k \<longleftrightarrow> (discoverable md w \<and> tag_key md w = k) \<or> has_entry md ws k"
  by (auto simp add: has_entry_def)

lemma tagged_no_entry: "\<not> has_entry md ws k \<Longrightarrow> tagged md ws k = []"
  by (simp add: has_entry_def tagged_def)

lemma has_entry_iff:
  "has_entry md S k \<longleftrightarrow> k \<in> tag_key md ` {w \<in> set S. discoverable md w}"
  by (auto simp add: has_entry_def filter_empty_conv)

lemma tagged_plain:
  assumes "\<forall>w\<in>set S. discoverable md w \<longrightarrow> \<not> is_array (inst w)"
  shows "tagged md S k = instances_tagged md S k"
  using assms
proof (induction S)
  case Nil
  show ?case by (simp add: tagged_def instances_tagged_def)
next
  case (Cons w S)
  then have ih: "tagged md S k = instances_tagged md S k"
    by simp
  show ?case
  proof (cases "discoverable md w \<and> tag_key md w = k")
    case True
    with Cons.prems have "\<not> is_array (inst w)" by simp
    then have "concat_items (inst w) = [inst w]"
      by (cases "inst w") simp_all
    with True ih show ?thesis
      by (simp add: tagged_Cons instances_tagged_def)
  next
    case False
    with ih show ?thesis
      by (auto simp add: tagged_Cons instances_tagged_def)
  qed
qed

lemma scan_loop_returns:
  assumes "scan_loop md ws logger acc = (logger', Inr acc')" and "distinct (map fst acc)"
  shows "logger' = logger @ map (event_of md) (filter (discoverable md) ws)
       \<and> distinct (map fst acc')
       \<and> (\<forall>k. map_of acc' k =
              (if has_entry md ws k then Some (own_array acc k @ tagged md ws k)
               else map_of acc k))"
  using assms
proof (induction ws arbitrary: logger acc)
  case Nil
  then show ?case by (simp add: has_entry_def)
next
  case (Cons w ws)
  show ?case
  proof (cases "discoverable md w")
    case False
    with Cons.prems have "scan_loop md ws logger acc = (logger', Inr acc')"
      by (simp add: filter_callback_discoverable)
    from Cons.IH [OF this Cons.prems(2)] False show ?thesis
      by (simp add: tagged_Cons has_entry_Cons)
  next
    case True
    let ?k = "tag_key md w"
    let ?v = "own_array acc ?k @ concat_items (inst w)"
    let ?acc = "spread_with acc ?k ?v"
    from Cons.prems(1) True have ns: "\<not> shadowed acc ?k"
      by (auto simp add: filter_callback_discoverable reduce_callback_discoverable
          split: if_splits)
    with Cons.prems(1) True
    have run: "scan_loop md ws (logger @ [event_of md w]) ?acc = (logger', Inr acc')"
      by (simp add: filter_callback_discoverable reduce_callback_discoverable)
    have d: "distinct (map fst ?acc)"
      by (rule distinct_spread_with [OF Cons.prems(2)])
    have m: "map_of ?acc = (map_of acc)(?k \<mapsto> ?v)"
      by (rule map_of_spread_with [OF Cons.prems(2)])
    note ih = Cons.IH [OF run d]
    have oa: "own_array ?acc k = (if k = ?k then ?v else own_array acc k)" for k
      unfolding own_array_def [of ?acc] m by (simp add: own_array_def)
    have "map_of acc' k =
            (if has_entry md (w # ws) k then Some (own_array acc k @ tagged md (w # ws) k)
             else map_of acc k)" for k
    proof -
      from ih have step: "map_of acc' k =
          (if has_entry md ws k then Some (own_array ?acc k @ tagged md ws k) else map_of ?acc k)"
        by blast
      show ?thesis
      proof (cases "has_entry md ws k")
        case True
        with step show ?thesis
          unfolding oa using \<open>discoverable md w\<close> by (simp add: tagged_Cons has_entry_Cons)
      next
        case False
        with step have "map_of acc' k = map_of ?acc k" by simp
        with False tagged_no_entry [OF False] show ?thesis
          unfolding m using \<open>discoverable md w\<close> by (simp add: tagged_Cons has_entry_Cons)
      qed
    qed
    with ih True show ?thesis by simp
  qed
qed

lemma scan_loop_completes:
  assumes "\<forall>w\<in>set ws. discoverable md w \<longrightarrow> \<not> inherited (tag_key md w)"
  shows "\<exists>acc'. scan_loop md ws logger acc = (logger @ map (event_of md) (filter (discoverable md) ws), Inr acc')"
  using assms
proof (induction ws arbitrary: logger acc)
  case Nil
  show ?case by simp
next
  case (Cons w ws)
  then have rest: "\<forall>w\<in>set ws. discoverable md w \<longrightarrow> \<not> inherited (tag_key md w)"
    by simp
  show ?case
  proof (cases "discoverable md w")
    case False
    with Cons.IH [OF rest, of logger acc] show ?thesis
      by (simp add: filter_callback_discoverable)
  next
    case True
    with Cons.prems have "\<not> shadowed acc (tag_key md w)"
      by (simp add: shadowed_def)
    with True
      Cons.IH [OF rest, of "logger @ [event_of md w]"
        "spread_with acc (tag_key md w) (own_array acc (tag_key md w) @ concat_items (inst w))"]
    show ?thesis
      by (simp add: filter_callback_discoverable reduce_callback_discoverable)
  qed
qed

lemma scan_loop_skip:
  assumes "\<not> discoverable md w"
  shows "scan_loop md (xs @ w # ys) logger acc = scan_loop md (xs @ ys) logger acc"
proof (induction xs arbitrary: logger acc)
  case Nil
  from assms show ?case by (simp add: filter_callback_discoverable)
next
  case (Cons x xs)
  show ?case
    by (cases "discoverable md x")
       (simp_all add: filter_callback_discoverable Cons.IH split: prod.splits sum.splits)
qed

lemma Object_values_keys:
  assumes "distinct (map fst obj)"
  shows "\<exists>ks. distinct ks \<and> set ks = {k \<in> fst ` set obj. \<not> is_symbol_key k}
            \<and> Object_values obj = map (\<lambda>k. own_array obj k) ks"
proof -
  let ?E = "filter (\<lambda>p. \<not> is_symbol_key (fst p)) (own_properties obj)"
  have d: "distinct (map fst ?E)"
    by (rule distinct_keys_filter [OF distinct_own_properties [OF assms]])
  have s: "set (map fst ?E) = {k \<in> fst ` set obj. \<not> is_symbol_key k}"
    by (auto simp add: set_own_properties)
  have "snd p = own_array obj (fst p)" if "p \<in> set ?E" for p
  proof -
    from that have "p \<in> set obj" by (simp add: set_own_properties)
    then have "map_of obj (fst p) = Some (snd p)"
      using assms by simp
    then show ?thesis by (simp add: own_array_def)
  qed
  then have "map snd ?E = map (\<lambda>k. own_array obj k) (map fst ?E)"
    by simp
  with d s show ?thesis
    unfolding Object_values_def by blast
qed

lemma mset_filter_disjoint:
  assumes "\<And>x. \<not> (A x \<and> B x)"
  shows "mset (map f (filter (\<lambda>w. A w \<or> B w) S)) = mset (map f (filter A S)) + mset (map f (filter B S))"
  using assms by (induction S) auto

lemma mset_concat_groups:
  assumes "distinct ks"
  shows "mset (concat (map (\<lambda>k. map f (filter (\<lambda>w. P w \<and> g w = k) S)) ks))
       = mset (map f (filter (\<lambda>w. P w \<and> g w \<in> set ks) S))"
  using assms
proof (induction ks)
  case Nil
  show ?case by simp
next
  case (Cons k ks)
  have "mset (map f (filter (\<lambda>w. (P w \<and> g w = k) \<or> (P w \<and> g w \<in> set ks)) S))
      = mset (map f (filter (\<lambda>w. P w \<and> g w = k) S)) + mset (map f (filter (\<lambda>w. P w \<and> g w \<in> set ks) S))"
    by (rule mset_filter_disjoint) (use Cons.prems in auto)
  moreover have "(\<lambda>w. P w \<and> g w \<in> set (k # ks)) = (\<lambda>w. (P w \<and> g w = k) \<or> (P w \<and> g w \<in> set ks))"
    by auto
  ultimately show ?case
    using Cons by simp
qed

text \<open>
  The definitions to unfold when the model is run on a concrete input.
\<close>

lemmas eval_defs = onModuleInit_def scanDiscoverableInstanceWrappers_def filter_callback_def
  reduce_callback_def getMetadata_def Reflect_getMetadata_def emitDiscoveredEvent_def
  get_property_def spread_with_def own_properties_def Object_prototype_names_def
  array_index_def is_digit_def decimal_def entry_def sample_metadata_def
  REGISTRY_METADATA_KEY_def Registry_new_def getProviders_def Object_values_def
  getProviders_after_onModuleInit_def Array_concat_def

lemmas vocabulary_defs = discoverable_def carries_tag_def readTag_def tag_key_def inherited_def
  tagged_def instances_tagged_def has_entry_def instances_carrying_def event_of_def
  own_array_def sample_wrappers_def
  app_wrappers_def FooRepository_def BarRepository_def MonitoringService_class_def

text \<open>
  What a population that meets no inherited key returns, and what any population that
  returns has built: the events of the discoverable entries in input order, and an index
  whose own properties are exactly the groups of the keys that have an entry.
\<close>

lemma onModuleInit_completes:
  assumes "\<forall>w\<in>set S. discoverable md w \<longrightarrow> \<not> inherited (tag_key md w)"
  shows "\<exists>index. onModuleInit md S registry
                 = (map (event_of md) (filter (discoverable md) S),
                    Inr (registry\<lparr> providers := index \<rparr>))
           \<and> distinct (map fst index)
           \<and> (\<forall>k. map_of index k = (if has_entry md S k then Some (tagged md S k) else None))"
proof -
  from scan_loop_completes [OF assms, of "[]" "[]"]
  obtain index where run: "scan_loop md S [] []
      = (map (event_of md) (filter (discoverable md) S), Inr index)"
    by auto
  from scan_loop_returns [OF run]
  have "distinct (map fst index)"
    and "\<forall>k. map_of index k = (if has_entry md S k then Some (tagged md S k) else None)"
    by (simp_all add: own_array_def)
  moreover from run have "onModuleInit md S registry
      = (map (event_of md) (filter (discoverable md) S), Inr (registry\<lparr> providers := index \<rparr>))"
    by (simp add: onModuleInit_def scanDiscoverableInstanceWrappers_def)
  ultimately show ?thesis by blast
qed

lemma onModuleInit_returns:
  assumes "onModuleInit md S registry0 = (logger, Inr registry)"
  shows "logger = map (event_of md) (filter (discoverable md) S)
       \<and> distinct (map fst (providers registry))
       \<and> (\<forall>k. map_of (providers registry) k
              = (if has_entry md S k then Some (tagged md S k) else None))"
proof -
  from assms obtain index where run: "scan_loop md S [] [] = (logger, Inr index)"
    and reg: "registry = registry0\<lparr> providers := index \<rparr>"
    by (auto simp add: onModuleInit_def scanDiscoverableInstanceWrappers_def
        split: prod.splits sum.splits)
  from scan_loop_returns [OF run] reg show ?thesis
    by (simp add: own_array_def)
qed

lemma getProviders_empty_key:
  "getProviders registry (Some (KStr [])) = getProviders registry None"
  by (simp add: getProviders_def)

lemma getProviders_key:
  assumes "key_truthy X" and "\<not> inherited X"
  shows "getProviders registry (Some X) = Array (own_array (providers registry) X)"
  using assms
  by (simp add: getProviders_def get_property_cases own_array_def split: option.splits)

text \<open>
  The two concrete inputs, run.
\<close>

lemma sample_wrappers_admissible:
  "\<forall>w\<in>set sample_wrappers. discoverable sample_metadata w
     \<longrightarrow> \<not> inherited (tag_key sample_metadata w) \<and> \<not> is_symbol_key (tag_key sample_metadata w)
         \<and> \<not> is_array (inst w)"
  by (simp add: vocabulary_defs eval_defs)

lemma app_metadata_tags:
  "app_metadata (JSym 0 ''__my-app--registry__'', c)
     = (if c = 1 \<or> c = 2 then Some (JStr ''repository'') else None)"
  by (simp add: app_metadata_def DiscoverableRepository_def composeDecorators_def Discover_def
      SetMetadata_def Injectable_def Reflect_defineMetadata_def REGISTRY_METADATA_KEY_def
      REPOSITORY_PROVIDER_def FooRepository_def BarRepository_def)

lemma app_run:
  "onModuleInit app_metadata app_wrappers Registry_new
     = ([DiscoveryEvent ''DISCOVERED'' ''repository'' ''FooRepository'',
         DiscoveryEvent ''DISCOVERED'' ''repository'' ''BarRepository''],
        Inr \<lparr> providers = [(KStr ''repository'', [Object (New FooRepository), Object (New BarRepository)])] \<rparr>)"
  by (simp add: app_metadata_tags eval_defs vocabulary_defs)

lemma app_tagged:
  "tagged app_metadata app_wrappers (KStr ''repository'') = [Object (New FooRepository), Object (New BarRepository)]"
  by (simp add: vocabulary_defs REGISTRY_METADATA_KEY_def app_metadata_tags)

text \<open>
  A tag that names an inherited property ends the scan: the event of that entry is logged,
  the reducer throws, and the entries after it are never reached.
\<close>

lemma onModuleInit_inherited_tag_throws:
  "onModuleInit sample_metadata [entry 4 (40::nat) ''D'', entry 1 10 ''A''] Registry_new
     = ([DiscoveryEvent ''DISCOVERED'' ''constructor'' ''D''], Inl TypeError)"
  by (simp add: eval_defs)

text \<open>
  An instance that is an array is not filed as one element: its elements are.
\<close>

lemma onModuleInit_array_instance_spread:
  "getProviders_after_onModuleInit sample_metadata
     [\<lparr> metatype = Some (BaseClass 1), inst = ArrayOf [Object (1::nat), Object 2], name = ''A'' \<rparr>]
     (Some (KStr ''repository''))
   = Inr (Array [Object 1, Object 2])"
  by (simp add: eval_defs)

section \<open>Tag round-trip\<close>

text \<open>
  C2. For every class \<open>T\<close> and every tag value \<open>X\<close>, applying the decorator \<open>Discover X\<close> to
  \<open>T\<close> succeeds and returns \<open>T\<close>, and afterwards the registry's metadata lookup on \<open>T\<close>
  returns \<open>X\<close>.
\<close>

theorem Discover_getMetadata_roundtrip:
  "\<exists>md'. Discover X (Some T) md = Inr (Some T, md') \<and> getMetadata md' (Some T) = Inr X"
  by (cases T)
     (simp_all add: Discover_def SetMetadata_def Reflect_defineMetadata_def getMetadata_def
        Reflect_getMetadata_def)

section \<open>Composition order\<close>




section \<open>Queries before population\<close>

text \<open>
  C7. A registry that has not been populated holds the empty object literal. Queried
  with the key \<^verbatim>\<open>'constructor'\<close> it does not return an empty array: the member access
  finds the built-in inherited from \<^verbatim>\<open>Object.prototype\<close>, which is truthy, and returns it.
\<close>

theorem getProviders_unpopulated_constructor:
  "getProviders Registry_new (Some (KStr ''constructor'')) = Builtin ''constructor''"
  by (simp add: getProviders_def Registry_new_def get_property_def Object_prototype_names_def)

text \<open>
  C10. A monitoring service on which \<open>MonitoringService_onModuleInit\<close> has not run holds
  the empty array it was constructed with, so \<open>check\<close> returns the empty list, whatever
  the repositories' \<open>check\<close> method does.
\<close>

theorem check_uninitialized: "check call_check MonitoringService_new = Inr []"
  by (simp add: check_def MonitoringService_new_def)

section \<open>Entries the scan ignores\<close>

text \<open>
  C9. An entry whose type reference is \<^verbatim>\<open>null\<close>/\<^verbatim>\<open>undefined\<close> or whose tag is falsy
  (absent, \<^verbatim>\<open>null\<close>, \<^verbatim>\<open>false\<close> or the empty string) has no effect on the population:
  the logged events and the resulting registry (or the error) are the same as for the
  input without that entry.
\<close>

theorem onModuleInit_skips_undiscoverable:
  assumes "metatype w = None \<or> \<not> truthy (readTag md w)"
  shows "onModuleInit md (xs @ w # ys) registry = onModuleInit md (xs @ ys) registry"
proof -
  from assms have "\<not> discoverable md w"
    by (auto simp add: discoverable_def)
  then show ?thesis
    by (simp add: onModuleInit_def scanDiscoverableInstanceWrappers_def scan_loop_skip)
qed

theorem onModuleInit_skips_undiscoverable_witness:
  "\<not> truthy (readTag sample_metadata (entry 3 (30::nat) ''C''))
   \<and> onModuleInit sample_metadata ([entry 1 (10::nat) ''A''] @ entry 3 30 ''C'' # [entry 2 20 ''B'']) Registry_new
     = onModuleInit sample_metadata ([entry 1 (10::nat) ''A''] @ [entry 2 20 ''B'']) Registry_new"
proof -
  have h: "\<not> truthy (readTag sample_metadata (entry 3 (30::nat) ''C''))"
    by (simp add: readTag_def entry_def sample_metadata_def REGISTRY_METADATA_KEY_def)
  from onModuleInit_skips_undiscoverable [of "entry 3 (30::nat) ''C''" sample_metadata
      "[entry 1 10 ''A'']" "[entry 2 20 ''B'']" Registry_new] h
  show ?thesis by simp
qed

section \<open>Queries after population\<close>

text \<open>
  C1, as stated: after the population of \<open>S\<close> the query without a key returns the
  instances of the entries of \<open>S\<close> whose type carries a tag, in the relative order of \<open>S\<close>.
  This fails on three entries tagged \<^verbatim>\<open>'repository'\<close>, \<^verbatim>\<open>'service'\<close>, \<^verbatim>\<open>'repository'\<close>:
  the query returns the first, the third, then the second.
\<close>

theorem getProviders_all_grouped_counterexample:
  "getProviders_after_onModuleInit sample_metadata sample_wrappers None
     \<noteq> Inr (Array (map inst (filter (carries_tag sample_metadata) sample_wrappers)))"
  by (simp add: vocabulary_defs eval_defs)

text \<open>
  C1, amended: when no discoverable entry of \<open>S\<close> has a tag that names a property
  inherited from \<^verbatim>\<open>Object.prototype\<close> or that is a symbol, or an instance that is itself
  an array, the population of \<open>S\<close> returns, and the query without a key then returns the
  instances of the discoverable entries (type reference and tag both truthy) grouped by
  tag: the concatenation, over the distinct tag keys of \<open>S\<close> in some order, of each key's
  instances in the relative order of \<open>S\<close>. As a multiset these are exactly the instances of
  the discoverable entries; every other entry is left out.
\<close>

theorem getProviders_all_grouped:
  assumes "\<forall>w\<in>set S. discoverable md w
             \<longrightarrow> \<not> inherited (tag_key md w) \<and> \<not> is_symbol_key (tag_key md w)
                 \<and> \<not> is_array (inst w)"
  shows "\<exists>ks. distinct ks \<and> set ks = tag_key md ` {w \<in> set S. discoverable md w}
           \<and> getProviders_after_onModuleInit md S None
               = Inr (Array (concat (map (instances_tagged md S) ks)))
           \<and> mset (concat (map (instances_tagged md S) ks))
               = mset (map inst (filter (discoverable md) S))"
proof -
  from assms have ni: "\<forall>w\<in>set S. discoverable md w \<longrightarrow> \<not> inherited (tag_key md w)"
    and na: "\<forall>w\<in>set S. discoverable md w \<longrightarrow> \<not> is_array (inst w)"
    by blast+
  from onModuleInit_completes [OF ni, of Registry_new]
  obtain index where run: "onModuleInit md S Registry_new
        = (map (event_of md) (filter (discoverable md) S), Inr (Registry_new\<lparr> providers := index \<rparr>))"
    and d: "distinct (map fst index)"
    and m: "\<forall>k. map_of index k = (if has_entry md S k then Some (tagged md S k) else None)"
    by blast
  from Object_values_keys [OF d]
  obtain ks where ks: "distinct ks" "set ks = {k \<in> fst ` set index. \<not> is_symbol_key k}"
    and vs: "Object_values index = map (\<lambda>k. own_array index k) ks"
    by blast
  have keys: "fst ` set index = tag_key md ` {w \<in> set S. discoverable md w}"
  proof -
    have "fst ` set index = dom (map_of index)"
      by (simp add: dom_map_of_conv_image_fst)
    also have "\<dots> = {k. has_entry md S k}"
      using m by (auto simp add: dom_def)
    finally show ?thesis
      by (simp add: has_entry_iff)
  qed
  have set_ks: "set ks = tag_key md ` {w \<in> set S. discoverable md w}"
    unfolding ks(2) keys using assms by auto
  have "own_array index k = instances_tagged md S k" for k
    using m tagged_no_entry [of md S k] tagged_plain [OF na, of k]
    by (cases "has_entry md S k") (simp_all add: own_array_def)
  then have "own_array index = instances_tagged md S"
    by (simp add: fun_eq_iff)
  with vs have "Object_values index = map (instances_tagged md S) ks"
    by simp
  with run have q: "getProviders_after_onModuleInit md S None
      = Inr (Array (concat (map (instances_tagged md S) ks)))"
    by (simp add: getProviders_after_onModuleInit_def getProviders_def)
  have "mset (concat (map (instances_tagged md S) ks))
      = mset (map inst (filter (\<lambda>w. discoverable md w \<and> tag_key md w \<in> set ks) S))"
    unfolding instances_tagged_def by (rule mset_concat_groups [OF ks(1)])
  also have "filter (\<lambda>w. discoverable md w \<and> tag_key md w \<in> set ks) S = filter (discoverable md) S"
    by (rule filter_cong) (auto simp add: set_ks)
  finally show ?thesis
    using ks(1) set_ks q by blast
qed

theorem getProviders_all_grouped_witness:
  "\<exists>ks. distinct ks
       \<and> set ks = tag_key sample_metadata ` {w \<in> set sample_wrappers. discoverable sample_metadata w}
       \<and> getProviders_after_onModuleInit sample_metadata sample_wrappers None
           = Inr (Array (concat (map (instances_tagged sample_metadata sample_wrappers) ks)))
       \<and> mset (concat (map (instances_tagged sample_metadata sample_wrappers) ks))
           = mset (map inst (filter (discoverable sample_metadata) sample_wrappers))"
  using getProviders_all_grouped [of sample_wrappers sample_metadata] sample_wrappers_admissible
  by blast

text \<open>
  C4, as stated: for every \<open>S\<close> and every tag \<open>X\<close>, the query for \<open>X\<close> after the population
  of \<open>S\<close> returns the instances whose type carries \<open>X\<close>, in the order of \<open>S\<close>. This fails for
  the empty string: no type of the sample carries it, but the key is falsy, so the query
  behaves as the query without a key and returns every indexed instance.
\<close>

theorem getProviders_by_tag_counterexample:
  "getProviders_after_onModuleInit sample_metadata sample_wrappers (Some (KStr []))
     \<noteq> Inr (Array (instances_carrying sample_metadata sample_wrappers (KStr [])))"
  by (simp add: vocabulary_defs eval_defs)

text \<open>
  C4, amended: when no discoverable entry of \<open>S\<close> has a tag that names a property
  inherited from \<^verbatim>\<open>Object.prototype\<close> or an instance that is itself an array, and \<open>X\<close> is a
  symbol or a non-empty string that does not name such a property either, the population
  of \<open>S\<close> returns and the query for \<open>X\<close> returns the instances of the discoverable entries
  filed under \<open>X\<close> (for string and symbol tags: the entries tagged \<open>X\<close>), in the relative
  order of \<open>S\<close>; and the query for the empty string is the query without a key.
\<close>

theorem getProviders_by_tag:
  assumes "\<forall>w\<in>set S. discoverable md w
             \<longrightarrow> \<not> inherited (tag_key md w) \<and> \<not> is_array (inst w)"
    and "key_truthy X" and "\<not> inherited X"
  shows "getProviders_after_onModuleInit md S (Some X) = Inr (Array (instances_tagged md S X))
       \<and> getProviders_after_onModuleInit md S (Some (KStr []))
           = getProviders_after_onModuleInit md S None"
proof
  from assms(1) have ni: "\<forall>w\<in>set S. discoverable md w \<longrightarrow> \<not> inherited (tag_key md w)"
    and na: "\<forall>w\<in>set S. discoverable md w \<longrightarrow> \<not> is_array (inst w)"
    by blast+
  from onModuleInit_completes [OF ni, of Registry_new]
  obtain index where run: "onModuleInit md S Registry_new
        = (map (event_of md) (filter (discoverable md) S), Inr (Registry_new\<lparr> providers := index \<rparr>))"
    and m: "\<forall>k. map_of index k = (if has_entry md S k then Some (tagged md S k) else None)"
    by blast
  from m tagged_no_entry [of md S X] have "own_array index X = tagged md S X"
    by (cases "has_entry md S X") (simp_all add: own_array_def)
  then have "own_array index X = instances_tagged md S X"
    by (simp add: tagged_plain [OF na])
  with run show "getProviders_after_onModuleInit md S (Some X)
      = Inr (Array (instances_tagged md S X))"
    by (simp add: getProviders_after_onModuleInit_def getProviders_key [OF assms(2,3)])
  show "getProviders_after_onModuleInit md S (Some (KStr []))
      = getProviders_after_onModuleInit md S None"
    by (simp add: getProviders_after_onModuleInit_def getProviders_empty_key
        split: prod.splits sum.splits)
qed

theorem getProviders_by_tag_witness:
  "key_truthy (KStr ''repository'') \<and> \<not> inherited (KStr ''repository'')
   \<and> getProviders_after_onModuleInit sample_metadata sample_wrappers (Some (KStr ''repository''))
       = Inr (Array [Object 10, Object 30])
   \<and> getProviders_after_onModuleInit sample_metadata sample_wrappers (Some (KStr []))
       = getProviders_after_onModuleInit sample_metadata sample_wrappers None"
proof -
  have h: "\<forall>w\<in>set sample_wrappers. discoverable sample_metadata w
      \<longrightarrow> \<not> inherited (tag_key sample_metadata w) \<and> \<not> is_array (inst w)"
    "key_truthy (KStr ''repository'')" "\<not> inherited (KStr ''repository'')"
    by (simp_all add: vocabulary_defs eval_defs)
  have "instances_tagged sample_metadata sample_wrappers (KStr ''repository'')
      = [Object 10, Object 30]"
    by (simp add: vocabulary_defs eval_defs)
  with getProviders_by_tag [OF h] h show ?thesis by simp
qed

text \<open>
  C6, as stated: on every populated index, the query for a tag without entries returns an
  empty array. This fails for the empty string on an index that holds two repositories:
  the empty string has no entries, yet the query returns the two repositories.
\<close>

theorem getProviders_no_entries_counterexample:
  "own_array (providers \<lparr> providers = [(KStr ''repository'', [10::nat, 30])] \<rparr>) (KStr []) = []
   \<and> getProviders \<lparr> providers = [(KStr ''repository'', [10::nat, 30])] \<rparr> (Some (KStr []))
       \<noteq> Array []"
  by (simp add: vocabulary_defs eval_defs)

text \<open>
  C6, amended: on every registry, the query for a key \<open>X\<close> that is a symbol or a non-empty
  string, does not name a property inherited from \<^verbatim>\<open>Object.prototype\<close>, and has no entries
  in the index returns the empty array; and no query, with or without a key, returns
  \<^verbatim>\<open>undefined\<close> (the model of \<open>getProviders\<close> has no throwing step).
\<close>

theorem getProviders_no_entries:
  assumes "key_truthy X" and "\<not> inherited X" and "own_array (providers registry) X = []"
  shows "getProviders registry (Some X) = Array [] \<and> getProviders registry key \<noteq> Undefined"
proof
  from assms show "getProviders registry (Some X) = Array []"
    by (simp add: getProviders_key)
  show "getProviders registry key \<noteq> Undefined"
    by (simp add: getProviders_def Let_def split: jsvalue.splits)
qed

theorem getProviders_no_entries_witness:
  "key_truthy (KStr ''service'') \<and> \<not> inherited (KStr ''service'')
   \<and> own_array (providers \<lparr> providers = [(KStr ''repository'', [10::nat, 30])] \<rparr>) (KStr ''service'') = []
   \<and> getProviders \<lparr> providers = [(KStr ''repository'', [10::nat, 30])] \<rparr> (Some (KStr ''service''))
       = Array []"
proof -
  have h: "key_truthy (KStr ''service'')" "\<not> inherited (KStr ''service'')"
    "own_array (providers \<lparr> providers = [(KStr ''repository'', [10::nat, 30])] \<rparr>) (KStr ''service'') = []"
    by (simp_all add: vocabulary_defs eval_defs)
  from getProviders_no_entries [OF h] h show ?thesis by blast
qed

section \<open>Discovery events\<close>

text \<open>
  C5, as stated: the population emits exactly one event per entry whose type carries a
  tag. This fails for an entry whose type carries the empty string as its tag: no event
  is emitted for it.
\<close>

theorem onModuleInit_events_counterexample:
  "length (fst (onModuleInit sample_metadata [entry 3 (40::nat) ''D''] Registry_new))
     \<noteq> length (filter (carries_tag sample_metadata) [entry 3 (40::nat) ''D''])"
  by (simp add: vocabulary_defs eval_defs)

text \<open>
  C5, amended: when no discoverable entry of \<open>S\<close> has a tag that names a property
  inherited from \<^verbatim>\<open>Object.prototype\<close>, the population of \<open>S\<close> logs exactly the events
  \<^verbatim>\<open>{event: 'DISCOVERED', type, name}\<close> of the discoverable entries (type reference and tag
  both truthy), one each, in input order, and nothing for any other entry.
\<close>

theorem onModuleInit_events:
  assumes "\<forall>w\<in>set S. discoverable md w \<longrightarrow> \<not> inherited (tag_key md w)"
  shows "fst (onModuleInit md S registry) = map (event_of md) (filter (discoverable md) S)"
  using onModuleInit_completes [OF assms, of registry] by auto

theorem onModuleInit_events_witness:
  "fst (onModuleInit sample_metadata sample_wrappers Registry_new)
       = [DiscoveryEvent ''DISCOVERED'' ''repository'' ''A'',
          DiscoveryEvent ''DISCOVERED'' ''service'' ''B'',
          DiscoveryEvent ''DISCOVERED'' ''repository'' ''C'']"
proof -
  have h: "\<forall>w\<in>set sample_wrappers. discoverable sample_metadata w \<longrightarrow> \<not> inherited (tag_key sample_metadata w)"
    by (simp add: vocabulary_defs eval_defs)
  have "map (event_of sample_metadata) (filter (discoverable sample_metadata) sample_wrappers)
      = [DiscoveryEvent ''DISCOVERED'' ''repository'' ''A'',
          DiscoveryEvent ''DISCOVERED'' ''service'' ''B'',
          DiscoveryEvent ''DISCOVERED'' ''repository'' ''C'']"
    by (simp add: vocabulary_defs eval_defs)
  with onModuleInit_events [OF h, of Registry_new] h show ?thesis by simp
qed

section \<open>The monitoring service end to end\<close>

text \<open>
  C8. After a population that returned: if what the entries tagged \<^verbatim>\<open>'repository'\<close>
  contribute is, in discovery order, two components whose \<open>check\<close> returns \<^verbatim>\<open>'FooRepository'\<close> and
  \<^verbatim>\<open>'BarRepository'\<close>, then the monitoring service, once initialised, reports these two
  names in that order; if no entry is tagged \<^verbatim>\<open>'repository'\<close> it reports the empty list.
\<close>

theorem check_after_population:
  assumes "onModuleInit md S Registry_new = (logger, Inr registry)"
  shows "(tagged md S (KStr ''repository'') = [foo, bar]
            \<and> call_check foo = Inr ''FooRepository'' \<and> call_check bar = Inr ''BarRepository''
          \<longrightarrow> check call_check (MonitoringService_onModuleInit registry MonitoringService_new)
                = Inr [''FooRepository'', ''BarRepository''])
       \<and> (tagged md S (KStr ''repository'') = []
          \<longrightarrow> check call_check (MonitoringService_onModuleInit registry MonitoringService_new)
                = Inr [])"
proof -
  have k: "key_truthy (KStr ''repository'')" "\<not> inherited (KStr ''repository'')"
    by (simp_all add: inherited_def Object_prototype_names_def)
  from onModuleInit_returns [OF assms] tagged_no_entry [of md S "KStr ''repository''"]
  have "own_array (providers registry) (KStr ''repository'') = tagged md S (KStr ''repository'')"
    by (cases "has_entry md S (KStr ''repository'')") (simp_all add: own_array_def)
  then have "repositories (MonitoringService_onModuleInit registry MonitoringService_new)
      = Array (tagged md S (KStr ''repository''))"
    by (simp add: MonitoringService_onModuleInit_def REPOSITORY_PROVIDER_def getProviders_key [OF k])
  then show ?thesis
    by (simp add: check_def)
qed

text \<open>
  The example application, with its two repositories and with the monitoring service
  alone.
\<close>

theorem check_after_population_witness:
  "onModuleInit app_metadata app_wrappers Registry_new
     = ([DiscoveryEvent ''DISCOVERED'' ''repository'' ''FooRepository'',
         DiscoveryEvent ''DISCOVERED'' ''repository'' ''BarRepository''],
        Inr \<lparr> providers = [(KStr ''repository'', [Object (New FooRepository), Object (New BarRepository)])] \<rparr>)
   \<and> tagged app_metadata app_wrappers (KStr ''repository'') = [Object (New FooRepository), Object (New BarRepository)]
   \<and> repository_check (Object (New FooRepository)) = Inr ''FooRepository''
   \<and> repository_check (Object (New BarRepository)) = Inr ''BarRepository''
   \<and> check repository_check
       (MonitoringService_onModuleInit
          \<lparr> providers = [(KStr ''repository'', [Object (New FooRepository), Object (New BarRepository)])] \<rparr>
          MonitoringService_new)
       = Inr [''FooRepository'', ''BarRepository'']
   \<and> onModuleInit app_metadata (take 1 app_wrappers) Registry_new = ([], Inr \<lparr> providers = [] \<rparr>)
   \<and> tagged app_metadata (take 1 app_wrappers) (KStr ''repository'') = []
   \<and> check repository_check
       (MonitoringService_onModuleInit \<lparr> providers = [] \<rparr> MonitoringService_new) = Inr []"
proof -
  have c: "repository_check (Object (New FooRepository)) = Inr ''FooRepository''"
    "repository_check (Object (New BarRepository)) = Inr ''BarRepository''"
    by (simp_all add: FooRepository_def BarRepository_def)
  have none_run: "onModuleInit app_metadata (take 1 app_wrappers) Registry_new
      = ([], Inr \<lparr> providers = [] \<rparr>)"
    by (simp add: app_metadata_tags eval_defs vocabulary_defs)
  have none_tagged: "tagged app_metadata (take 1 app_wrappers) (KStr ''repository'') = []"
    by (simp add: vocabulary_defs REGISTRY_METADATA_KEY_def app_metadata_tags)
  from check_after_population [OF app_run, of "Object (New FooRepository)"
      "Object (New BarRepository)" repository_check]
    check_after_population [OF none_run, of "Object (New FooRepository)"
      "Object (New BarRepository)" repository_check]
    app_run app_tagged c none_run none_tagged
  show ?thesis by simp
qed

end
